theory Spec2Isabelle
  imports Main "HOL-Library.Sublist"
begin

section \<open>Strings as Python sees them\<close>

text \<open>
  The script \<^verbatim>\<open>update-translations.py\<close> works on Python \<^verbatim>\<open>str\<close> values. A string is
  modelled as a \<^typ>\<open>string\<close> (a list of characters); every operation the script uses
  on strings (\<^verbatim>\<open>find\<close>, \<^verbatim>\<open>replace\<close>, indexing) works position by position, so the
  model applies to any alphabet. Exceptions the script can raise are values of
  \<open>error\<close>; a function that can raise returns \<open>error + 'a\<close>.
\<close>

datatype error = IndexError | AssertionError

text \<open>
  \<^verbatim>\<open>s.find(sub, start)\<close>: the lowest index \<open>i \<ge> start\<close> at which \<open>sub\<close> occurs in
  \<open>s\<close>, and \<open>-1\<close> when there is none (also when \<open>start\<close> is beyond the end).
\<close>

fun find_at :: "string \<Rightarrow> string \<Rightarrow> nat \<Rightarrow> int" where
  "find_at sub [] i = (if sub = [] then int i else - 1)"
| "find_at sub (c # cs) i = (if prefix sub (c # cs) then int i else find_at sub cs (Suc i))"

definition str_find :: "string \<Rightarrow> string \<Rightarrow> nat \<Rightarrow> int" where
  "str_find s sub start = (if length s < start then - 1 else find_at sub (drop start s) start)"

text \<open>
  \<^verbatim>\<open>s.replace(old, new)\<close>: every non-overlapping occurrence of \<open>old\<close>, found from
  the left, is replaced. (With an empty \<open>old\<close> Python puts \<open>new\<close> before every
  character and at the end; the script never does that, the case is there for totality.)
\<close>

function replace_from :: "string \<Rightarrow> string \<Rightarrow> string \<Rightarrow> string" where
  "replace_from old new [] = []"
| "replace_from old new (c # cs) =
     (if old \<noteq> [] \<and> prefix old (c # cs)
      then new @ replace_from old new (drop (length old) (c # cs))
      else c # replace_from old new cs)"
  by pat_completeness auto
termination
  by (relation "measure (\<lambda>(old, new, s). length s)") (auto simp: neq_Nil_conv)

definition py_replace :: "string \<Rightarrow> string \<Rightarrow> string \<Rightarrow> string" where
  "py_replace s old new =
     (if old = [] then new @ concat (map (\<lambda>c. c # new) s) else replace_from old new s)"

section \<open>Specifier extraction and classification\<close>

text \<open>
  \<^verbatim>\<open>find_format_specifiers\<close> (lines 48-58): the \<^verbatim>\<open>while True\<close> loop with its
  variables \<open>pos\<close> and \<open>specifiers\<close>. \<^verbatim>\<open>s[percent+1]\<close> raises \<open>IndexError\<close> when the
  \<open>%\<close> found is the last character.
\<close>

lemma find_at_bounds:
  "find_at sub s i = r \<Longrightarrow> 0 \<le> r \<Longrightarrow> sub \<noteq> [] \<Longrightarrow> int i \<le> r \<and> r < int i + int (length s)"
  by (induction s arbitrary: i) (auto split: if_splits, fastforce+)

lemma str_find_bounds:
  assumes "0 \<le> str_find s sub start" and "sub \<noteq> []"
  shows "int start \<le> str_find s sub start" and "str_find s sub start < int (length s)"
proof -
  from assms(1) have le: "start \<le> length s"
    by (auto simp: str_find_def split: if_splits)
  then have eq: "str_find s sub start = find_at sub (drop start s) start"
    by (simp add: str_find_def)
  from find_at_bounds [OF refl, of sub "drop start s" start] assms eq le
  show "int start \<le> str_find s sub start" and "str_find s sub start < int (length s)"
    by auto
qed

function find_loop :: "string \<Rightarrow> nat \<Rightarrow> char list \<Rightarrow> error + char list" where
  "find_loop s pos specifiers =
     (let percent = str_find s ''%'' pos in
      if percent < 0 then Inr specifiers
      else if nat percent + 1 < length s
        then find_loop s (nat percent + 2) (specifiers @ [s ! (nat percent + 1)])
        else Inl IndexError)"
  by pat_completeness auto
termination
proof (relation "measure (\<lambda>(s, pos, specifiers). length s - pos)", goal_cases)
  case 1
  show ?case by simp
next
  case (2 s pos specifiers percent)
  then have "0 \<le> str_find s ''%'' pos" by simp
  from str_find_bounds [OF this] 2 show ?case by auto
qed

declare find_loop.simps [simp del]

definition find_format_specifiers :: "string \<Rightarrow> error + char list" where
  "find_format_specifiers s = find_loop s 0 []"

text \<open>The equations that evaluate the functions above on a given string.\<close>

lemmas find_eval = find_format_specifiers_def find_loop.simps str_find_def

text \<open>
  \<^verbatim>\<open>split_format_specifiers\<close> (lines 60-79). The \<^verbatim>\<open>for\<close> loop appends each token to
  \<open>numeric\<close> or to \<open>other\<close>; then \<open>other\<close> is emptied when \<open>numeric\<close> is not empty, and
  the pair \<open>(set(numeric), other)\<close> is returned.
\<close>

definition numeric_specifiers :: "char set" where
  "numeric_specifiers = set ''123456789''"

fun split_loop :: "char list \<Rightarrow> char list \<Rightarrow> char list \<Rightarrow> char list \<times> char list" where
  "split_loop [] numeric other = (numeric, other)"
| "split_loop (s # specifiers) numeric other =
     (if s \<in> numeric_specifiers
      then split_loop specifiers (numeric @ [s]) other
      else split_loop specifiers numeric (other @ [s]))"

type_synonym profile = "char set \<times> char list"

definition split_format_specifiers :: "char list \<Rightarrow> profile" where
  "split_format_specifiers specifiers =
     (case split_loop specifiers [] [] of
        (numeric, other) \<Rightarrow> (set numeric, if numeric \<noteq> [] then [] else other))"

text \<open>\<^verbatim>\<open>sanitize_string\<close> (lines 81-83).\<close>

definition sanitize_string :: "string \<Rightarrow> string" where
  "sanitize_string s = py_replace s [CHR 0x0A] '' ''"

section \<open>The consistency check\<close>

text \<open>
  \<^verbatim>\<open>check_format_specifiers\<close> (lines 85-103). The list \<open>errors\<close> the caller passes is
  returned extended; the global \<open>source_f\<close> the function assigns is returned as the third
  component. An \<open>IndexError\<close> of the source's extraction (line 87) is outside the
  \<^verbatim>\<open>try\<close> and leaves the function, as a failed \<^verbatim>\<open>assert\<close> does; the \<open>IndexError\<close> of
  the translation's extraction is caught (lines 91-95).
\<close>

definition parse_error_finding :: "string \<Rightarrow> string \<Rightarrow> string" where
  "parse_error_finding source translation =
     ''Parse error in translation for '' @ [CHR 0x27] @ sanitize_string source @ [CHR 0x27]
       @ '': '' @ [CHR 0x27] @ sanitize_string translation @ [CHR 0x27]"

definition mismatch_finding :: "string \<Rightarrow> string \<Rightarrow> string" where
  "mismatch_finding source translation =
     ''Mismatch between '' @ [CHR 0x27] @ sanitize_string source @ [CHR 0x27]
       @ '' and '' @ [CHR 0x27] @ sanitize_string translation @ [CHR 0x27]"

definition check_format_specifiers ::
  "string \<Rightarrow> string \<Rightarrow> string list \<Rightarrow> bool \<Rightarrow> error + (bool \<times> string list \<times> profile)" where
  "check_format_specifiers source translation errors numerus =
     (case find_format_specifiers source of
        Inl e \<Rightarrow> Inl e
      | Inr source_specifiers \<Rightarrow>
          let source_f = split_format_specifiers source_specifiers in
          if fst source_f \<noteq> {} \<and> snd source_f \<noteq> [] then Inl AssertionError
          else
            (case find_format_specifiers translation of
               Inl e \<Rightarrow> Inr (False, errors @ [parse_error_finding source translation], source_f)
             | Inr translation_specifiers \<Rightarrow>
                 let translation_f = split_format_specifiers translation_specifiers in
                 if source_f \<noteq> translation_f then
                   if numerus \<and> source_f = ({}, ''n'') \<and> translation_f = ({}, [])
                        \<and> str_find translation ''%'' 0 = - 1
                   then Inr (True, errors, source_f)
                   else Inr (False, errors @ [mismatch_finding source translation], source_f)
                 else Inr (True, errors, source_f)))"

section \<open>Repair table and content filter\<close>

text \<open>\<^verbatim>\<open>fix_string\<close> (lines 115-117): the chain of \<^verbatim>\<open>replace\<close> calls, left to right.\<close>

definition fix_table :: "(string \<times> string) list" where
  "fix_table =
     [(''% 1'', ''%1''), (''1%'', ''%1''), (''$1'', ''%1''), (''2%'', ''%2''),
      (''% s'', ''%s''), (''s%'', ''%s''), (''$s'', ''%s''), (''n%'', ''%n''),
      (''$n'', ''%n''), (''% n'', ''%n''), (''% d'', ''%d'')]"

definition fix_string :: "string \<Rightarrow> string" where
  "fix_string s = foldl (\<lambda>s (old, new). py_replace s old new) s fix_table"

text \<open>
  \<^verbatim>\<open>ADDRESS_REGEXP\<close> (line 35) is \<^verbatim>\<open>([13]|bc1)[a-zA-Z0-9]{30,}\<close>, used with
  \<^verbatim>\<open>search\<close>: it matches somewhere in the text when, at some position, a \<open>1\<close>, a \<open>3\<close>
  or \<open>bc1\<close> is followed by at least 30 characters of the class.
\<close>

definition alnum :: "char \<Rightarrow> bool" where
  "alnum c \<longleftrightarrow>
     c \<in> set (''abcdefghijklmnopqrstuvwxyz'' @ ''ABCDEFGHIJKLMNOPQRSTUVWXYZ'' @ ''0123456789'')"

definition address_match :: "string \<Rightarrow> bool" where
  "address_match s \<longleftrightarrow>
     (case s of [] \<Rightarrow> False
      | c # cs \<Rightarrow> (c = CHR ''1'' \<or> c = CHR ''3'') \<and> 30 \<le> length (takeWhile alnum cs))
     \<or> (prefix ''bc1'' s \<and> 30 \<le> length (takeWhile alnum (drop 3 s)))"

fun address_search :: "string \<Rightarrow> bool" where
  "address_search [] = False"
| "address_search (c # cs) = (address_match (c # cs) \<or> address_search cs)"

text \<open>\<^verbatim>\<open>contains_bitcoin_addr\<close> (lines 133-137); the extended \<open>errors\<close> is returned too.\<close>

definition address_finding :: "string \<Rightarrow> string" where
  "address_finding text =
     ''Translation '' @ [CHR 0x22] @ text @ [CHR 0x22]
       @ '' contains a bitcoin address. This will be removed.''"

definition contains_bitcoin_addr :: "string option \<Rightarrow> string list \<Rightarrow> bool \<times> string list" where
  "contains_bitcoin_addr text errors =
     (case text of
        None \<Rightarrow> (False, errors)
      | Some t \<Rightarrow> if address_search t then (True, errors @ [address_finding t]) else (False, errors))"

section \<open>Translation documents\<close>

text \<open>
  The part of an ElementTree \<^verbatim>\<open><translation>\<close> element the script reads and writes:
  its \<open>text\<close> (field \<open>node_text\<close>, \<open>None\<close> when the element has no character data),
  its attributes and the texts of its \<^verbatim>\<open><numerusform>\<close> children. A \<^verbatim>\<open><message>\<close> carries its \<open>numerus\<close>
  attribute, the text of its \<^verbatim>\<open><source>\<close>, its translation element and its
  \<^verbatim>\<open><location>\<close> children; a document is the list of its contexts, each the list of
  its messages. Every message is taken to have a \<^verbatim>\<open><source>\<close> with a text and a
  \<^verbatim>\<open><translation>\<close> element, as the files of the translation platform do.
\<close>

record translation_node =
  node_text :: "string option"
  attrib :: "string \<rightharpoonup> string"
  numerusforms :: "string option list"

record message =
  numerus_attr :: "string option"
  source_text :: string
  translation_elem :: translation_node
  locations :: "string list"

type_synonym document = "message list list"

text \<open>
  \<^verbatim>\<open>clear_translation\<close> (lines 139-141). \<^verbatim>\<open>Element.clear()\<close> removes the children and
  the attributes and sets the text to \<open>None\<close>.
\<close>

definition clear_translation :: "translation_node \<Rightarrow> translation_node" where
  "clear_translation t =
     (t\<lparr>node_text := None, attrib := Map.empty, numerusforms := []\<rparr>)
       \<lparr>attrib := [''type'' \<mapsto> ''unfinished'']\<rparr>"

text \<open>
  The variables of a run: the globals \<open>source_f\<close>, \<open>tf\<close> (translations fixed) and \<open>lr\<close>
  (languages removed), and \<open>have_errors\<close>, which \<^verbatim>\<open>postprocess_translations\<close> returns.
\<close>

record run =
  source_f :: profile
  tf :: nat
  lr :: nat
  have_errors :: bool

section \<open>Repair and pruning\<close>

text \<open>
  The condition of line 198: the text does not start with \<open>%\<close> and contains none of
  \<open>" %"\<close>, \<open>"(%"\<close>, \<open>"'%"\<close> and \<open>"\"%"\<close>. \<^verbatim>\<open>translation_node.text[0]\<close> raises
  \<open>IndexError\<close> on an empty text.
\<close>

definition space_guard :: "string \<Rightarrow> error + bool" where
  "space_guard t =
     (case t of
        [] \<Rightarrow> Inl IndexError
      | c # _ \<Rightarrow>
          Inr (c \<noteq> CHR ''%'' \<and> str_find t '' %'' 0 = - 1 \<and> str_find t ''(%'' 0 = - 1
               \<and> str_find t [CHR 0x27, CHR ''%''] 0 = - 1
               \<and> str_find t [CHR 0x22, CHR ''%''] 0 = - 1))"

text \<open>
  Lines 192-239 of \<^verbatim>\<open>postprocess_translations\<close>: what is done with the translation
  element once a translation of the message was found invalid. The calls of
  \<^verbatim>\<open>find_format_specifiers\<close> here are outside any \<^verbatim>\<open>try\<close>: their \<open>IndexError\<close>
  leaves the run. Printing is not modelled.
\<close>

definition fix_translation ::
  "string \<Rightarrow> translation_node \<Rightarrow> run \<Rightarrow> error + (translation_node \<times> run)" where
  "fix_translation source translation_node r =
     (case node_text translation_node of
        None \<Rightarrow> Inr (clear_translation translation_node, r\<lparr>have_errors := True\<rparr>)
      | Some t0 \<Rightarrow>
          let t = fix_string t0 in
          (case find_format_specifiers t of
             Inl e \<Rightarrow> Inl e
           | Inr specifiers \<Rightarrow>
               if source_f r = split_format_specifiers specifiers then
                 (case space_guard t of
                    Inl e \<Rightarrow> Inl e
                  | Inr g \<Rightarrow>
                      Inr (translation_node
                             \<lparr>node_text := Some (if g then py_replace t ''%'' '' %'' else t)\<rparr>,
                           r\<lparr>tf := tf r + 1\<rparr>))
               else if 0 \<le> str_find t ''%'' 0 \<and> 0 \<le> str_find source ''&'' 0 then
                 let t' = py_replace t ''%'' ''&'' in
                 (case find_format_specifiers t' of
                    Inl e \<Rightarrow> Inl e
                  | Inr specifiers' \<Rightarrow>
                      if source_f r = split_format_specifiers specifiers'
                      then Inr (translation_node\<lparr>node_text := Some t'\<rparr>, r\<lparr>tf := tf r + 1\<rparr>)
                      else Inr (clear_translation (translation_node\<lparr>node_text := Some t'\<rparr>),
                                r\<lparr>have_errors := True\<rparr>))
               else if 0 \<le> str_find t ''%1'' 0 \<and> 0 \<le> str_find source ''%n'' 0 then
                 let t' = py_replace t ''%1'' ''%n'' in
                 (case find_format_specifiers t' of
                    Inl e \<Rightarrow> Inl e
                  | Inr specifiers' \<Rightarrow>
                      if source_f r = split_format_specifiers specifiers'
                      then Inr (translation_node\<lparr>node_text := Some t'\<rparr>, r\<lparr>tf := tf r + 1\<rparr>)
                      else Inr (clear_translation (translation_node\<lparr>node_text := Some t'\<rparr>),
                                r\<lparr>have_errors := True\<rparr>))
               else Inr (clear_translation (translation_node\<lparr>node_text := Some t\<rparr>),
                         r\<lparr>have_errors := True\<rparr>)))"

text \<open>
  Lines 185-186: \<open>valid\<close> and the findings of one translation. \<^verbatim>\<open>and\<close> evaluates
  \<^verbatim>\<open>contains_bitcoin_addr\<close> only when the specifier check returned \<open>True\<close>.
\<close>

definition validate ::
  "string \<Rightarrow> string \<Rightarrow> bool \<Rightarrow> error + (bool \<times> string list \<times> profile)" where
  "validate source translation numerus =
     (case check_format_specifiers source translation [] numerus of
        Inl e \<Rightarrow> Inl e
      | Inr (ok, errors, sf) \<Rightarrow>
          if ok
          then (case contains_bitcoin_addr (Some translation) errors of
                  (found, errors') \<Rightarrow> Inr (\<not> found, errors', sf))
          else Inr (False, errors, sf))"

text \<open>The body of the loop over \<open>translations\<close> (lines 182-239), and the loop.\<close>

definition process_translation ::
  "string \<Rightarrow> bool \<Rightarrow> string option \<Rightarrow> translation_node \<Rightarrow> run
     \<Rightarrow> error + (translation_node \<times> run)" where
  "process_translation source numerus translation translation_node r =
     (case translation of
        None \<Rightarrow> Inr (translation_node, r)
      | Some tr \<Rightarrow>
          (case validate source tr numerus of
             Inl e \<Rightarrow> Inl e
           | Inr (valid, errors, sf) \<Rightarrow>
               if \<not> valid then fix_translation source translation_node (r\<lparr>source_f := sf\<rparr>)
               else Inr (translation_node, r\<lparr>source_f := sf\<rparr>)))"

fun process_translations ::
  "string \<Rightarrow> bool \<Rightarrow> string option list \<Rightarrow> translation_node \<Rightarrow> run
     \<Rightarrow> error + (translation_node \<times> run)" where
  "process_translations source numerus [] translation_node r = Inr (translation_node, r)"
| "process_translations source numerus (translation # translations) translation_node r =
     (case process_translation source numerus translation translation_node r of
        Inl e \<Rightarrow> Inl e
      | Inr (translation_node', r') \<Rightarrow>
          process_translations source numerus translations translation_node' r')"

text \<open>
  One message (lines 173-247): its translations are processed, its location children
  are removed, and the boolean says whether line 243 removed the message from its
  context.
\<close>

definition unfinished :: "translation_node \<Rightarrow> bool" where
  "unfinished t \<longleftrightarrow> attrib t ''type'' = Some ''unfinished''"

definition process_message :: "message \<Rightarrow> run \<Rightarrow> error + (message \<times> bool \<times> run)" where
  "process_message m r =
     (let numerus = (numerus_attr m = Some ''yes'');
          translation_node = translation_elem m;
          translations =
            (if numerus then numerusforms translation_node else [node_text translation_node])
      in case process_translations (source_text m) numerus translations translation_node r of
           Inl e \<Rightarrow> Inl e
         | Inr (translation_node', r') \<Rightarrow>
             Inr (m\<lparr>translation_elem := translation_node', locations := []\<rparr>,
                  unfinished translation_node', r'))"

text \<open>The loops over the messages of a context and over the contexts (lines 171-172).\<close>

fun process_context :: "message list \<Rightarrow> run \<Rightarrow> error + (message list \<times> run)" where
  "process_context [] r = Inr ([], r)"
| "process_context (m # ms) r =
     (case process_message m r of
        Inl e \<Rightarrow> Inl e
      | Inr (m', removed, r') \<Rightarrow>
          (case process_context ms r' of
             Inl e \<Rightarrow> Inl e
           | Inr (ms', r'') \<Rightarrow> Inr (if removed then ms' else m' # ms', r'')))"

fun process_contexts :: "document \<Rightarrow> run \<Rightarrow> error + (document \<times> run)" where
  "process_contexts [] r = Inr ([], r)"
| "process_contexts (c # cs) r =
     (case process_context c r of
        Inl e \<Rightarrow> Inl e
      | Inr (c', r') \<Rightarrow>
          (case process_contexts cs r' of
             Inl e \<Rightarrow> Inl e
           | Inr (cs', r'') \<Rightarrow> Inr (c' # cs', r'')))"

text \<open>
  One document (lines 169-269): \<open>Some\<close> of the tree that is written to the file, or
  \<open>None\<close> when the document is left out (line 257; its file was renamed away at line 157,
  so nothing is left under its name).
\<close>

definition MIN_NUM_MESSAGES :: nat where
  "MIN_NUM_MESSAGES = 10"

definition postprocess_document :: "document \<Rightarrow> run \<Rightarrow> error + (document option \<times> run)" where
  "postprocess_document root r =
     (case process_contexts root r of
        Inl e \<Rightarrow> Inl e
      | Inr (root', r') \<Rightarrow>
          let num_messages = length (concat root') in
          if num_messages < MIN_NUM_MESSAGES then Inr (None, r'\<lparr>lr := lr r' + 1\<rparr>)
          else Inr (Some root', r'))"

section \<open>Auxiliary definitions\<close>

text \<open>
  A proof device: the tokens extraction returns, computed by recursion on the string
  instead of positions. Lemma \<open>find_format_specifiers_scan\<close> below shows that the
  loop of \<^verbatim>\<open>find_format_specifiers\<close> computes exactly this.
\<close>

fun scan_specifiers :: "string \<Rightarrow> error + char list" where
  "scan_specifiers [] = Inr []"
| "scan_specifiers [c] = (if c = CHR ''%'' then Inl IndexError else Inr [])"
| "scan_specifiers (c # d # cs) =
     (if c = CHR ''%''
      then (case scan_specifiers cs of Inl e \<Rightarrow> Inl e | Inr ts \<Rightarrow> Inr (d # ts))
      else scan_specifiers (d # cs))"

text \<open>
  For stating what pruning removes: the messages of a context, and the contexts of a
  document, each processed as \<open>process_context\<close> and \<open>process_contexts\<close> do, with
  every message kept. Lemmas \<open>process_context_filter\<close> and \<open>process_contexts_filter\<close>
  below show that the loops of the script return these lists without the messages whose
  translation element is marked unfinished.
\<close>

fun processed_messages :: "message list \<Rightarrow> run \<Rightarrow> error + (message list \<times> run)" where
  "processed_messages [] r = Inr ([], r)"
| "processed_messages (m # ms) r =
     (case process_message m r of
        Inl e \<Rightarrow> Inl e
      | Inr (m', removed, r') \<Rightarrow>
          (case processed_messages ms r' of
             Inl e \<Rightarrow> Inl e
           | Inr (ms', r'') \<Rightarrow> Inr (m' # ms', r'')))"

fun processed_contexts :: "document \<Rightarrow> run \<Rightarrow> error + (document \<times> run)" where
  "processed_contexts [] r = Inr ([], r)"
| "processed_contexts (c # cs) r =
     (case processed_messages c r of
        Inl e \<Rightarrow> Inl e
      | Inr (c', r') \<Rightarrow>
          (case processed_contexts cs r' of
             Inl e \<Rightarrow> Inl e
           | Inr (cs', r'') \<Rightarrow> Inr (c' # cs', r'')))"

definition finished :: "message \<Rightarrow> bool" where
  "finished m \<longleftrightarrow> \<not> unfinished (translation_elem m)"

section \<open>Facts about the string operations and the check\<close>

lemma find_at_absent: "c \<notin> set s \<Longrightarrow> find_at [c] s i = - 1"
  by (induction s arbitrary: i) auto

lemma str_find_absent: "c \<notin> set s \<Longrightarrow> str_find s [c] pos = - 1"
  by (auto simp: str_find_def intro!: find_at_absent dest: in_set_dropD)

lemma find_no_percent: "CHR ''%'' \<notin> set s \<Longrightarrow> find_format_specifiers s = Inr []"
  by (simp add: find_format_specifiers_def find_loop.simps str_find_absent)

text \<open>The only exception extraction raises is \<open>IndexError\<close>.\<close>

lemma find_loop_error: "find_loop s pos specifiers = Inl e \<Longrightarrow> e = IndexError"
proof (induction s pos specifiers rule: find_loop.induct)
  case (1 s pos specifiers)
  note unfold = find_loop.simps [of s pos specifiers, unfolded Let_def]
  show ?case
  proof (cases "str_find s ''%'' pos < 0")
    case True
    with "1.prems" unfold show ?thesis by simp
  next
    case False
    show ?thesis
    proof (cases "nat (str_find s ''%'' pos) + 1 < length s")
      case True
      with False "1.prems" unfold "1.IH" [OF refl] show ?thesis by simp
    next
      case no_char: False
      with False "1.prems" unfold show ?thesis by simp
    qed
  qed
qed

lemma find_format_specifiers_error: "find_format_specifiers s = Inl e \<Longrightarrow> e = IndexError"
  unfolding find_format_specifiers_def by (rule find_loop_error)

text \<open>The classification loop is two filters.\<close>

lemma split_loop_filter:
  "split_loop specifiers numeric other =
     (numeric @ filter (\<lambda>s. s \<in> numeric_specifiers) specifiers,
      other @ filter (\<lambda>s. s \<notin> numeric_specifiers) specifiers)"
  by (induction specifiers arbitrary: numeric other) simp_all

lemma split_format_specifiers_eq:
  "split_format_specifiers specifiers =
     ({s \<in> set specifiers. s \<in> numeric_specifiers},
      if \<exists>s \<in> set specifiers. s \<in> numeric_specifiers then []
      else filter (\<lambda>s. s \<notin> numeric_specifiers) specifiers)"
  by (auto simp: split_format_specifiers_def split_loop_filter filter_empty_conv)

lemma split_not_both:
  "fst (split_format_specifiers specifiers) = {} \<or> snd (split_format_specifiers specifiers) = []"
  by (auto simp: split_format_specifiers_eq)

lemma assertion_passes:
  "\<not> (fst (split_format_specifiers specifiers) \<noteq> {} \<and> snd (split_format_specifiers specifiers) \<noteq> [])"
  using split_not_both [of specifiers] by blast

text \<open>
  The check, once the source's tokens are known: the \<^verbatim>\<open>assert\<close> has gone, the two
  nested conditions are one.
\<close>

lemma check_format_specifiers_source_ok:
  assumes "find_format_specifiers source = Inr ss"
  shows "check_format_specifiers source translation errors numerus =
     (case find_format_specifiers translation of
        Inl e \<Rightarrow> Inr (False, errors @ [parse_error_finding source translation],
                   split_format_specifiers ss)
      | Inr ts \<Rightarrow>
          if split_format_specifiers ss = split_format_specifiers ts
             \<or> (numerus \<and> split_format_specifiers ss = ({}, ''n'')
                 \<and> split_format_specifiers ts = ({}, []) \<and> str_find translation ''%'' 0 = - 1)
          then Inr (True, errors, split_format_specifiers ss)
          else Inr (False, errors @ [mismatch_finding source translation],
                    split_format_specifiers ss))"
  unfolding check_format_specifiers_def Let_def assms sum.case
  by (simp only: assertion_passes if_False split: sum.split) auto

lemma check_format_specifiers_source_error:
  assumes "find_format_specifiers source = Inl e"
  shows "check_format_specifiers source translation errors numerus = Inl IndexError"
  using assms find_format_specifiers_error [OF assms]
  by (simp add: check_format_specifiers_def)

section \<open>Extraction as a scan of the string\<close>

text \<open>The loop of \<^verbatim>\<open>find_format_specifiers\<close> computes \<open>scan_specifiers\<close>.\<close>

lemma find_at_single:
  "find_at [c] s i =
     (if c \<in> set s then int i + int (length (takeWhile (\<lambda>x. x \<noteq> c) s)) else - 1)"
  by (induction s arbitrary: i) auto

lemma scan_other: "c \<noteq> CHR ''%'' \<Longrightarrow> scan_specifiers (c # cs) = scan_specifiers cs"
  by (cases cs) simp_all

lemma scan_skip: "CHR ''%'' \<notin> set xs \<Longrightarrow> scan_specifiers (xs @ ys) = scan_specifiers ys"
  by (induction xs) (auto simp: scan_other)

lemma find_loop_scan:
  "pos \<le> length s \<Longrightarrow>
   find_loop s pos acc =
     (case scan_specifiers (drop pos s) of Inl e \<Rightarrow> Inl e | Inr ts \<Rightarrow> Inr (acc @ ts))"
proof (induction s pos acc rule: find_loop.induct)
  case (1 s pos acc)
  let ?xs = "drop pos s"
  from "1.prems" have sf: "str_find s ''%'' pos = find_at ''%'' ?xs pos"
    by (simp add: str_find_def)
  show ?case
  proof (cases "CHR ''%'' \<in> set ?xs")
    case False
    then have "str_find s ''%'' pos = - 1" by (simp add: sf find_at_single)
    moreover from False have "scan_specifiers ?xs = Inr []"
      using scan_skip [of ?xs "[]"] by simp
    ultimately show ?thesis by (subst find_loop.simps) simp
  next
    case True
    define n where "n = length (takeWhile (\<lambda>x. x \<noteq> CHR ''%'') ?xs)"
    have pc: "str_find s ''%'' pos = int (pos + n)"
      using True by (simp add: sf find_at_single n_def)
    have "dropWhile (\<lambda>x. x \<noteq> CHR ''%'') ?xs \<noteq> []" using True by simp
    then obtain y ys where d: "dropWhile (\<lambda>x. x \<noteq> CHR ''%'') ?xs = y # ys"
      by (cases "dropWhile (\<lambda>x. x \<noteq> CHR ''%'') ?xs") auto
    have y: "y = CHR ''%''"
      using d hd_dropWhile [of "\<lambda>x. x \<noteq> CHR ''%''" ?xs] by auto
    have td: "?xs = takeWhile (\<lambda>x. x \<noteq> CHR ''%'') ?xs @ y # ys"
      using d takeWhile_dropWhile_id [of "\<lambda>x. x \<noteq> CHR ''%''" ?xs] by simp
    have len: "length ?xs = n + Suc (length ys)"
      by (subst td) (simp add: n_def)
    then have nlt: "n < length ?xs" by simp
    have "drop (Suc n) ?xs = drop (Suc n) (takeWhile (\<lambda>x. x \<noteq> CHR ''%'') ?xs @ y # ys)"
      using td by simp
    also have "\<dots> = ys" by (simp add: n_def)
    finally have ys: "ys = drop (Suc n) ?xs" by simp
    have split: "?xs = takeWhile (\<lambda>x. x \<noteq> CHR ''%'') ?xs @ CHR ''%'' # drop (Suc n) ?xs"
      using td y ys by simp
    have scan: "scan_specifiers ?xs = scan_specifiers (CHR ''%'' # drop (Suc n) ?xs)"
      by (subst split, rule scan_skip) (auto dest: set_takeWhileD)
    have rest: "drop (Suc n) ?xs = drop (pos + n + 1) s"
      by (simp add: add.commute)
    have np: "nat (str_find s ''%'' pos) = pos + n" and nn: "\<not> str_find s ''%'' pos < 0"
      using pc by simp_all
    note unfold = find_loop.simps [of s pos acc, unfolded Let_def np]
    show ?thesis
    proof (cases "pos + n + 1 < length s")
      case False
      with nlt have "drop (Suc n) ?xs = []" by simp
      with scan False nn unfold show ?thesis by simp
    next
      case lt: True
      then have r2: "drop (Suc n) ?xs = s ! (pos + n + 1) # drop (pos + n + 2) s"
        unfolding rest using Cons_nth_drop_Suc [of "pos + n + 1" s] by simp
      have "find_loop s pos acc = find_loop s (pos + n + 2) (acc @ [s ! (pos + n + 1)])"
        using lt nn unfold by simp
      also have "\<dots> = (case scan_specifiers (drop (pos + n + 2) s) of
                          Inl e \<Rightarrow> Inl e | Inr ts \<Rightarrow> Inr ((acc @ [s ! (pos + n + 1)]) @ ts))"
        using "1.IH" [OF refl nn] lt by (simp only: np)
      finally have fl: "find_loop s pos acc =
          (case scan_specifiers (drop (pos + n + 2) s) of
             Inl e \<Rightarrow> Inl e | Inr ts \<Rightarrow> Inr ((acc @ [s ! (pos + n + 1)]) @ ts))" .
      have sc: "scan_specifiers ?xs =
          (case scan_specifiers (drop (pos + n + 2) s) of
             Inl e \<Rightarrow> Inl e | Inr ts \<Rightarrow> Inr (s ! (pos + n + 1) # ts))"
        unfolding scan r2 by (simp split: sum.split)
      show ?thesis unfolding fl sc by (simp split: sum.split)
    qed
  qed
qed

lemma find_format_specifiers_scan: "find_format_specifiers s = scan_specifiers s"
  unfolding find_format_specifiers_def
  by (subst find_loop_scan) (simp_all split: sum.split)

text \<open>Replacing a single character, and searching for a pair of characters.\<close>

lemma replace_from_single:
  "replace_from [a] new s = concat (map (\<lambda>c. if c = a then new else [c]) s)"
  by (induction s) auto

lemma py_replace_single:
  "py_replace s [a] new = concat (map (\<lambda>c. if c = a then new else [c]) s)"
  by (simp add: py_replace_def replace_from_single)

lemma replace_from_nonempty: "s \<noteq> [] \<Longrightarrow> new \<noteq> [] \<Longrightarrow> replace_from old new s \<noteq> []"
  by (cases s) simp_all

lemma py_replace_nonempty: "s \<noteq> [] \<Longrightarrow> new \<noteq> [] \<Longrightarrow> py_replace s old new \<noteq> []"
  by (simp add: py_replace_def replace_from_nonempty)

lemma fix_string_nonempty: "s \<noteq> [] \<Longrightarrow> fix_string s \<noteq> []"
  by (simp add: fix_string_def fix_table_def py_replace_nonempty)

lemma find_at_pair:
  "find_at [a, b] t k = - 1 \<longleftrightarrow> \<not> (\<exists>i. Suc i < length t \<and> t ! i = a \<and> t ! Suc i = b)"
proof (induction t arbitrary: k)
  case Nil
  show ?case by simp
next
  case (Cons c cs)
  have ex: "(\<exists>i. Suc i < length (c # cs) \<and> (c # cs) ! i = a \<and> (c # cs) ! Suc i = b)
      \<longleftrightarrow> prefix [a, b] (c # cs) \<or> (\<exists>i. Suc i < length cs \<and> cs ! i = a \<and> cs ! Suc i = b)"
    (is "?L \<longleftrightarrow> ?P \<or> ?R")
  proof
    assume ?L
    then obtain i where i: "Suc i < length (c # cs)" "(c # cs) ! i = a" "(c # cs) ! Suc i = b"
      by blast
    show "?P \<or> ?R"
    proof (cases i)
      case 0
      with i have "c = a" and "cs \<noteq> []" and "hd cs = b"
        by (auto simp: hd_conv_nth)
      then have ?P by (cases cs) auto
      then show ?thesis ..
    next
      case (Suc j)
      with i have ?R by auto
      then show ?thesis ..
    qed
  next
    assume "?P \<or> ?R"
    then show ?L
    proof
      assume ?P
      then obtain ds where "c = a" "cs = b # ds" by (cases cs) auto
      then have "Suc 0 < length (c # cs) \<and> (c # cs) ! 0 = a \<and> (c # cs) ! Suc 0 = b" by simp
      then show ?L by blast
    next
      assume ?R
      then obtain i where "Suc i < length cs" "cs ! i = a" "cs ! Suc i = b" by blast
      then have "Suc (Suc i) < length (c # cs) \<and> (c # cs) ! Suc i = a
          \<and> (c # cs) ! Suc (Suc i) = b" by simp
      then show ?L by blast
    qed
  qed
  show ?case
  proof (cases "prefix [a, b] (c # cs)")
    case True
    then have "find_at [a, b] (c # cs) k \<noteq> - 1" by simp
    with True ex show ?thesis by blast
  next
    case False
    then have eq: "find_at [a, b] (c # cs) k = find_at [a, b] cs (Suc k)"
      by (simp only: find_at.simps if_False)
    show ?thesis unfolding eq ex Cons.IH [of "Suc k"] using False by simp
  qed
qed

lemma str_find_pair:
  "str_find t [a, b] 0 = - 1 \<longleftrightarrow> \<not> (\<exists>i. Suc i < length t \<and> t ! i = a \<and> t ! Suc i = b)"
  by (simp add: str_find_def find_at_pair)

lemma scan_insert_space:
  "find_at ''%%'' t k = - 1 \<Longrightarrow>
   scan_specifiers (concat (map (\<lambda>c. if c = CHR ''%'' then '' %'' else [c]) t)) = scan_specifiers t"
proof (induction t arbitrary: k rule: scan_specifiers.induct)
  case 1
  show ?case by simp
next
  case (2 c)
  show ?case by simp
next
  case (3 c d cs)
  show ?case
  proof (cases "c = CHR ''%''")
    case True
    with "3.prems" have d: "d \<noteq> CHR ''%''" and rest: "find_at ''%%'' cs (Suc (Suc k)) = - 1"
      by (auto split: if_splits)
    from "3.IH"(1) [OF True rest] True d show ?thesis by simp
  next
    case False
    with "3.prems" have rest: "find_at ''%%'' (d # cs) (Suc k) = - 1"
      by (auto split: if_splits)
    from "3.IH"(2) [OF False rest] False show ?thesis
      by (simp add: scan_other)
  qed
qed

lemma insert_space_keeps_specifiers:
  "str_find t ''%%'' 0 = - 1 \<Longrightarrow>
   find_format_specifiers (py_replace t ''%'' '' %'') = find_format_specifiers t"
  by (simp add: find_format_specifiers_scan py_replace_single str_find_def scan_insert_space)

section \<open>Facts about the repair\<close>

lemmas fix_eval = fix_string_def fix_table_def py_replace_def

lemma space_guard_iff:
  assumes "t \<noteq> []"
  shows "space_guard t =
     Inr (hd t \<noteq> CHR ''%''
          \<and> (\<forall>i. Suc i < length t \<and> t ! Suc i = CHR ''%'' \<longrightarrow>
                t ! i \<notin> {CHR '' '', CHR ''('', CHR 0x27, CHR 0x22}))"
proof -
  from assms obtain c cs where t: "t = c # cs" by (cases t) auto
  show ?thesis
    unfolding space_guard_def str_find_pair t list.case list.sel
    by (rule arg_cong [where f = Inr]) blast
qed

lemma fix_translation_first_pass:
  assumes "node_text translation_node = Some t0" and "fix_string t0 = t"
    and "find_format_specifiers t = Inr specifiers"
    and "split_format_specifiers specifiers = source_f r"
    and "space_guard t = Inr g"
  shows "fix_translation source translation_node r =
    Inr (translation_node\<lparr>node_text := Some (if g then py_replace t ''%'' '' %'' else t)\<rparr>,
         r\<lparr>tf := tf r + 1\<rparr>)"
  using assms by (simp add: fix_translation_def)

lemma process_translation_invalid:
  assumes "validate source tr numerus = Inr (False, errors, sf)"
  shows "process_translation source numerus (Some tr) translation_node r =
    fix_translation source translation_node (r\<lparr>source_f := sf\<rparr>)"
  using assms by (simp add: process_translation_def)

lemma find_at_range: "find_at sub t k = - 1 \<or> int k \<le> find_at sub t k"
proof (induction t arbitrary: k)
  case Nil
  show ?case by simp
next
  case (Cons c cs)
  from Cons.IH [of "Suc k"] show ?case by auto
qed

lemma str_find_range: "str_find t sub 0 = - 1 \<or> 0 \<le> str_find t sub 0"
  using find_at_range [of sub t 0] by (simp add: str_find_def)



text \<open>
  The two ways the repair can return: a fix is counted and a text stored, or the element
  is cleared, marked unfinished, and the run is flagged.
\<close>

lemma repair_outcome:
  assumes "fix_translation source translation_node r = Inr (node', r')"
  shows "(tf r' = tf r + 1 \<and> have_errors r' = have_errors r
            \<and> attrib node' = attrib translation_node \<and> node_text node' \<noteq> None)
       \<or> (node' = clear_translation translation_node \<and> r' = r\<lparr>have_errors := True\<rparr>)"
  using assms
  by (auto simp: fix_translation_def Let_def clear_translation_def
      split: option.splits sum.splits if_splits)

text \<open>
  The first pass and the swap of \<open>%1\<close> for \<open>%n\<close>, in terms of the text of the translation
  element alone.
\<close>

lemma fix_translation_first_pass_stored:
  assumes "node_text translation_node = Some t0" and "t0 \<noteq> []" and "fix_string t0 = t"
    and "find_format_specifiers t = Inr specifiers"
    and "split_format_specifiers specifiers = source_f r"
  shows "\<exists>stored.
      fix_translation source translation_node r =
        Inr (translation_node\<lparr>node_text := Some stored\<rparr>, r\<lparr>tf := tf r + 1\<rparr>)
      \<and> stored =
          (if hd t \<noteq> CHR ''%''
              \<and> (\<forall>i. Suc i < length t \<and> t ! Suc i = CHR ''%'' \<longrightarrow>
                    t ! i \<notin> {CHR '' '', CHR ''('', CHR 0x27, CHR 0x22})
           then concat (map (\<lambda>c. if c = CHR ''%'' then '' %'' else [c]) t)
           else t)
      \<and> (str_find t ''%%'' 0 = - 1 \<longrightarrow>
            split_format_specifiers specifiers = source_f r
            \<and> find_format_specifiers stored = Inr specifiers)"
proof -
  from assms(2,3) have ne: "t \<noteq> []" using fix_string_nonempty by blast
  let ?g = "hd t \<noteq> CHR ''%''
     \<and> (\<forall>i. Suc i < length t \<and> t ! Suc i = CHR ''%'' \<longrightarrow>
           t ! i \<notin> {CHR '' '', CHR ''('', CHR 0x27, CHR 0x22})"
  let ?stored = "if ?g then py_replace t ''%'' '' %'' else t"
  have 1: "fix_translation source translation_node r =
        Inr (translation_node\<lparr>node_text := Some ?stored\<rparr>, r\<lparr>tf := tf r + 1\<rparr>)"
    by (rule fix_translation_first_pass [OF assms(1,3,4,5) space_guard_iff [OF ne]])
  have 2: "?stored = (if ?g then concat (map (\<lambda>c. if c = CHR ''%'' then '' %'' else [c]) t) else t)"
    by (simp only: py_replace_single)
  have 3: "find_format_specifiers ?stored = Inr specifiers" if "str_find t ''%%'' 0 = - 1"
    using that assms(4) by (simp add: insert_space_keeps_specifiers)
  from 1 2 3 assms(5) show ?thesis by blast
qed







text \<open>
  A message that is not plural-aware has one translation, the text of its translation
  element (line 180).
\<close>

lemma process_message_single:
  assumes "numerus_attr m \<noteq> Some ''yes''"
    and "node_text (translation_elem m) = Some translation"
  shows "process_message m r =
     (case process_translation (source_text m) False (Some translation) (translation_elem m) r of
        Inl e \<Rightarrow> Inl e
      | Inr (translation_node', r') \<Rightarrow>
          Inr (m\<lparr>translation_elem := translation_node', locations := []\<rparr>,
               unfinished translation_node', r'))"
  using assms by (simp add: process_message_def split: sum.split)

section \<open>Processing without pruning\<close>

text \<open>
  The loops of the script return the processed messages without those whose translation
  element is marked unfinished.
\<close>

lemma process_message_removed:
  "process_message m r = Inr (m', removed, r') \<Longrightarrow> removed = unfinished (translation_elem m')"
  by (auto simp: process_message_def Let_def split: sum.splits)

lemma process_context_filter:
  "process_context ms r =
     (case processed_messages ms r of
        Inl e \<Rightarrow> Inl e
      | Inr (ps, r') \<Rightarrow> Inr (filter finished ps, r'))"
proof (induction ms arbitrary: r)
  case Nil
  show ?case by simp
next
  case (Cons m ms)
  show ?case
  proof (cases "process_message m r")
    case (Inl e)
    then show ?thesis by simp
  next
    case (Inr x)
    then obtain m' removed r' where pm: "process_message m r = Inr (m', removed, r')"
      by (cases x) auto
    from process_message_removed [OF pm] have rm: "removed = (\<not> finished m')"
      by (simp add: finished_def)
    show ?thesis
      by (simp add: pm rm Cons.IH [of r'] split: sum.split)
  qed
qed

lemma process_contexts_filter:
  "process_contexts root r =
     (case processed_contexts root r of
        Inl e \<Rightarrow> Inl e
      | Inr (processed, r') \<Rightarrow> Inr (map (filter finished) processed, r'))"
proof (induction root arbitrary: r)
  case Nil
  show ?case by simp
next
  case (Cons c cs)
  show ?case
  proof (cases "processed_messages c r")
    case (Inl e)
    then show ?thesis by (simp add: process_context_filter)
  next
    case (Inr x)
    then obtain ps r' where pc: "processed_messages c r = Inr (ps, r')" by (cases x) auto
    show ?thesis
      by (simp add: process_context_filter pc Cons.IH [of r'] split: sum.split)
  qed
qed

lemma processed_contexts_error:
  "processed_contexts root r = Inl e \<Longrightarrow> postprocess_document root r = Inl e"
  by (simp add: postprocess_document_def process_contexts_filter)

section \<open>Classification\<close>

text \<open>
  Claim C1. For every list of raw specifier tokens, the classification loop puts exactly
  the tokens that are digits 1-9 into \<open>numeric\<close> and all remaining tokens into \<open>other\<close>,
  each in their order in the list; the numeric set returned is the set of the digit
  tokens; and whenever that set is not empty, the other sequence of the returned pair is
  empty (when it is empty, no token is a digit and the other sequence is the whole list).
\<close>

theorem classification_correct:
  "split_loop specifiers [] [] =
     (filter (\<lambda>s. s \<in> numeric_specifiers) specifiers,
      filter (\<lambda>s. s \<notin> numeric_specifiers) specifiers)
   \<and> fst (split_format_specifiers specifiers) = {s \<in> set specifiers. s \<in> numeric_specifiers}
   \<and> (fst (split_format_specifiers specifiers) \<noteq> {} \<longrightarrow>
        snd (split_format_specifiers specifiers) = [])
   \<and> (fst (split_format_specifiers specifiers) = {} \<longrightarrow>
        snd (split_format_specifiers specifiers) = specifiers)"
  by (auto simp: split_format_specifiers_eq split_loop_filter filter_id_conv)

theorem classification_correct_witness:
  "fst (split_format_specifiers ''1)s2'') \<noteq> {} \<and> snd (split_format_specifiers ''1)s2'') = []
   \<and> split_loop ''1)s2'' [] [] = (''12'', '')s'')
   \<and> fst (split_format_specifiers ''sd'') = {} \<and> snd (split_format_specifiers ''sd'') = ''sd''"
proof -
  have ne: "fst (split_format_specifiers ''1)s2'') \<noteq> {}"
    and e: "fst (split_format_specifiers ''sd'') = {}"
    by (simp_all add: split_format_specifiers_def numeric_specifiers_def)
  from classification_correct [of "''1)s2''"] ne
  have "snd (split_format_specifiers ''1)s2'') = []"
    and "split_loop ''1)s2'' [] [] = (''12'', '')s'')"
    by (simp_all add: numeric_specifiers_def)
  moreover from classification_correct [of "''sd''"] e
  have "snd (split_format_specifiers ''sd'') = ''sd''"
    by blast
  ultimately show ?thesis using ne e by simp
qed

section \<open>Sources that mix the two conventions\<close>

text \<open>
  Claim C2 says that a source string with at least one numeric and at least one
  printf-style specifier makes the assertion of the consistency check fail. It does not:
  for the source \<open>"%1 %s"\<close> extraction gives the tokens \<open>1\<close> and \<open>s\<close>, classification
  gives \<open>({1}, [])\<close>, the assertion passes and the check returns \<open>True\<close> for the
  translation \<open>"%1 %s"\<close>.
\<close>

theorem mixed_source_counterexample:
  "find_format_specifiers ''%1 %s'' = Inr ''1s''
   \<and> split_format_specifiers ''1s'' = ({CHR ''1''}, [])
   \<and> check_format_specifiers ''%1 %s'' ''%1 %s'' [] False = Inr (True, [], ({CHR ''1''}, []))"
proof -
  have s: "find_format_specifiers ''%1 %s'' = Inr ''1s''"
    by (simp add: find_eval)
  have p: "split_format_specifiers ''1s'' = ({CHR ''1''}, [])"
    by (simp add: split_format_specifiers_def numeric_specifiers_def)
  show ?thesis
    by (simp add: s p check_format_specifiers_source_ok [OF s])
qed

text \<open>
  Claim C2, amended. For every source string whose tokens include a digit 1-9 and a token
  that is none, classification drops the other tokens: the source profile is the set of
  the digit tokens with an empty other sequence, the assertion passes, and the check
  returns a verdict (it compares the translation with that positional profile) instead
  of stopping the run.
\<close>

theorem mixed_source_is_positional:
  assumes "find_format_specifiers source = Inr ss"
    and "\<exists>s \<in> set ss. s \<in> numeric_specifiers"
    and "\<exists>s \<in> set ss. s \<notin> numeric_specifiers"
  shows "split_format_specifiers ss = ({s \<in> set ss. s \<in> numeric_specifiers}, [])
    \<and> (\<exists>ok errors'. check_format_specifiers source translation errors numerus
          = Inr (ok, errors', ({s \<in> set ss. s \<in> numeric_specifiers}, [])))"
proof
  from assms(2) show p: "split_format_specifiers ss = ({s \<in> set ss. s \<in> numeric_specifiers}, [])"
    by (simp add: split_format_specifiers_eq)
  show "\<exists>ok errors'. check_format_specifiers source translation errors numerus
          = Inr (ok, errors', ({s \<in> set ss. s \<in> numeric_specifiers}, []))"
    unfolding check_format_specifiers_source_ok [OF assms(1)] p
    by (auto split: sum.split)
qed

theorem mixed_source_is_positional_witness:
  "split_format_specifiers ''1s'' = ({s \<in> set ''1s''. s \<in> numeric_specifiers}, [])
   \<and> (\<exists>ok errors'. check_format_specifiers ''%1 %s'' ''%s %1'' [] False
         = Inr (ok, errors', ({s \<in> set ''1s''. s \<in> numeric_specifiers}, [])))"
proof -
  have 1: "find_format_specifiers ''%1 %s'' = Inr ''1s''"
    by (simp add: find_eval)
  have 2: "\<exists>s \<in> set ''1s''. s \<in> numeric_specifiers"
    and 3: "\<exists>s \<in> set ''1s''. s \<notin> numeric_specifiers"
    by (simp_all add: numeric_specifiers_def)
  from mixed_source_is_positional [OF 1 2 3] show ?thesis .
qed

section \<open>The first repair pass\<close>

text \<open>
  Claim C3 says that, once the substituted text has the source's profile, a space is
  inserted before each \<open>%\<close> unless the string starts with \<open>%\<close> or the marker is already
  preceded by a space, parenthesis or quote, and that the stored string's profile matches
  the source profile. Both fail. For the source \<open>"%s: 100%%"\<close> and the translation
  \<open>"x$s:100%%x"\<close> the table gives \<open>"x%s:100%%x"\<close>, which has the source's tokens \<open>s\<close>,
  \<open>%\<close>; the string stored is \<open>"x %s:100 % %x"\<close>, whose tokens are \<open>s\<close>, a space and \<open>x\<close>.
  For the source \<open>"%1 %2"\<close> and the translation \<open>"x$1 y %2"\<close> the string stored is
  \<open>"x%1 y %2"\<close>: no space is put before \<open>%1\<close>, which follows an \<open>x\<close> in a string that
  does not start with \<open>%\<close>, because another marker of the string follows a space.
\<close>

theorem first_pass_counterexample:
  "process_translation ''%s: 100%%'' False (Some ''x$s:100%%x'')
      \<lparr>node_text = Some ''x$s:100%%x'', attrib = Map.empty, numerusforms = []\<rparr>
      \<lparr>source_f = ({}, []), tf = 0, lr = 0, have_errors = False\<rparr>
    = Inr (\<lparr>node_text = Some ''x %s:100 % %x'', attrib = Map.empty, numerusforms = []\<rparr>,
           \<lparr>source_f = ({}, ''s%''), tf = 1, lr = 0, have_errors = False\<rparr>)
   \<and> find_format_specifiers ''x %s:100 % %x'' = Inr ''s x''
   \<and> split_format_specifiers ''s x'' = ({}, ''s x'')
   \<and> process_translation ''%1 %2'' False (Some ''x$1 y %2'')
      \<lparr>node_text = Some ''x$1 y %2'', attrib = Map.empty, numerusforms = []\<rparr>
      \<lparr>source_f = ({}, []), tf = 0, lr = 0, have_errors = False\<rparr>
    = Inr (\<lparr>node_text = Some ''x%1 y %2'', attrib = Map.empty, numerusforms = []\<rparr>,
           \<lparr>source_f = ({CHR ''1'', CHR ''2''}, []), tf = 1, lr = 0, have_errors = False\<rparr>)"
proof -
  have src1: "find_format_specifiers ''%s: 100%%'' = Inr ''s%''"
    and tr1: "find_format_specifiers ''x$s:100%%x'' = Inr ''%''"
    and fx1: "find_format_specifiers ''x%s:100%%x'' = Inr ''s%''"
    and st1: "find_format_specifiers ''x %s:100 % %x'' = Inr ''s x''"
    and src2: "find_format_specifiers ''%1 %2'' = Inr ''12''"
    and tr2: "find_format_specifiers ''x$1 y %2'' = Inr ''2''"
    and fx2: "find_format_specifiers ''x%1 y %2'' = Inr ''12''"
    by (simp_all add: find_eval)
  have p: "split_format_specifiers ''s%'' = ({}, ''s%'')"
    "split_format_specifiers ''%'' = ({}, ''%'')"
    "split_format_specifiers ''s x'' = ({}, ''s x'')"
    "split_format_specifiers ''12'' = ({CHR ''1'', CHR ''2''}, [])"
    "split_format_specifiers ''2'' = ({CHR ''2''}, [])"
    by (simp_all add: split_format_specifiers_def numeric_specifiers_def)
  have v1: "validate ''%s: 100%%'' ''x$s:100%%x'' False
      = Inr (False, [mismatch_finding ''%s: 100%%'' ''x$s:100%%x''], ({}, ''s%''))"
    by (simp add: validate_def check_format_specifiers_source_ok [OF src1] tr1 p)
  have v2: "validate ''%1 %2'' ''x$1 y %2'' False
      = Inr (False, [mismatch_finding ''%1 %2'' ''x$1 y %2''], ({CHR ''1'', CHR ''2''}, []))"
    by (simp add: validate_def check_format_specifiers_source_ok [OF src2] tr2 p)
  have f1: "fix_string ''x$s:100%%x'' = ''x%s:100%%x''"
    and f2: "fix_string ''x$1 y %2'' = ''x%1 y %2''"
    by (simp_all add: fix_eval)
  have g1: "space_guard ''x%s:100%%x'' = Inr True"
    and g2: "space_guard ''x%1 y %2'' = Inr False"
    by (simp_all add: space_guard_def str_find_def)
  have r1: "py_replace ''x%s:100%%x'' ''%'' '' %'' = ''x %s:100 % %x''"
    by (simp add: py_replace_def)
  have a: "process_translation ''%s: 100%%'' False (Some ''x$s:100%%x'')
      \<lparr>node_text = Some ''x$s:100%%x'', attrib = Map.empty, numerusforms = []\<rparr>
      \<lparr>source_f = ({}, []), tf = 0, lr = 0, have_errors = False\<rparr>
    = Inr (\<lparr>node_text = Some ''x %s:100 % %x'', attrib = Map.empty, numerusforms = []\<rparr>,
           \<lparr>source_f = ({}, ''s%''), tf = 1, lr = 0, have_errors = False\<rparr>)"
    unfolding process_translation_invalid [OF v1]
    by (subst fix_translation_first_pass [OF _ f1 fx1 _ g1]) (simp_all add: p r1)
  have b: "process_translation ''%1 %2'' False (Some ''x$1 y %2'')
      \<lparr>node_text = Some ''x$1 y %2'', attrib = Map.empty, numerusforms = []\<rparr>
      \<lparr>source_f = ({}, []), tf = 0, lr = 0, have_errors = False\<rparr>
    = Inr (\<lparr>node_text = Some ''x%1 y %2'', attrib = Map.empty, numerusforms = []\<rparr>,
           \<lparr>source_f = ({CHR ''1'', CHR ''2''}, []), tf = 1, lr = 0, have_errors = False\<rparr>)"
    unfolding process_translation_invalid [OF v2]
    by (subst fix_translation_first_pass [OF _ f2 fx2 _ g2]) (simp_all add: p)
  from a b st1 p(3) show ?thesis by simp
qed

text \<open>
  Claim C3, amended. For a message that is not plural-aware (the text of its translation
  element is its one translation), with a non-empty translation that the check finds
  invalid: when the translation, after the substitution table, has tokens whose profile
  is the source profile, the fix is accepted. The message keeps its element with a stored
  text, one more fixed translation is counted and the run is not flagged. The stored
  text is the substituted text with a space put before every \<open>%\<close> when the substituted
  text does not start with \<open>%\<close> and none of its \<open>%\<close> follows a space, an opening
  parenthesis, a single or a double quote; otherwise it is the substituted text
  unchanged. When the substituted text contains no \<open>%%\<close>, the stored text has the same
  tokens, so its profile is the source profile.
\<close>

theorem first_pass_accepts:
  assumes "numerus_attr m \<noteq> Some ''yes''"
    and "node_text (translation_elem m) = Some translation" and "translation \<noteq> []"
    and "find_format_specifiers (source_text m) = Inr ss"
    and "validate (source_text m) translation False
           = Inr (False, errors, split_format_specifiers ss)"
    and "fix_string translation = t"
    and "find_format_specifiers t = Inr specifiers"
    and "split_format_specifiers specifiers = split_format_specifiers ss"
  shows "\<exists>stored.
      process_message m r =
        Inr (m\<lparr>translation_elem := (translation_elem m)\<lparr>node_text := Some stored\<rparr>,
               locations := []\<rparr>,
             unfinished (translation_elem m),
             r\<lparr>source_f := split_format_specifiers ss, tf := tf r + 1\<rparr>)
      \<and> stored =
          (if hd t \<noteq> CHR ''%''
              \<and> (\<forall>i. Suc i < length t \<and> t ! Suc i = CHR ''%'' \<longrightarrow>
                    t ! i \<notin> {CHR '' '', CHR ''('', CHR 0x27, CHR 0x22})
           then concat (map (\<lambda>c. if c = CHR ''%'' then '' %'' else [c]) t)
           else t)
      \<and> (str_find t ''%%'' 0 = - 1 \<longrightarrow>
            find_format_specifiers stored = Inr specifiers
            \<and> split_format_specifiers specifiers = split_format_specifiers ss)"
proof -
  let ?r = "r\<lparr>source_f := split_format_specifiers ss\<rparr>"
  have sf: "split_format_specifiers specifiers = source_f ?r"
    using assms(8) by simp
  from fix_translation_first_pass_stored [OF assms(2,3,6,7) sf, of "source_text m"]
  obtain stored where
    f: "fix_translation (source_text m) (translation_elem m) ?r =
          Inr ((translation_elem m)\<lparr>node_text := Some stored\<rparr>, ?r\<lparr>tf := tf ?r + 1\<rparr>)"
    and s: "stored =
          (if hd t \<noteq> CHR ''%''
              \<and> (\<forall>i. Suc i < length t \<and> t ! Suc i = CHR ''%'' \<longrightarrow>
                    t ! i \<notin> {CHR '' '', CHR ''('', CHR 0x27, CHR 0x22})
           then concat (map (\<lambda>c. if c = CHR ''%'' then '' %'' else [c]) t)
           else t)"
    and p: "str_find t ''%%'' 0 = - 1 \<longrightarrow> find_format_specifiers stored = Inr specifiers"
    by auto
  have "process_message m r =
        Inr (m\<lparr>translation_elem := (translation_elem m)\<lparr>node_text := Some stored\<rparr>,
               locations := []\<rparr>,
             unfinished (translation_elem m),
             r\<lparr>source_f := split_format_specifiers ss, tf := tf r + 1\<rparr>)"
    unfolding process_message_single [OF assms(1,2)] process_translation_invalid [OF assms(5)] f
    by (simp add: unfinished_def)
  with s p assms(8) show ?thesis by blast
qed

theorem first_pass_accepts_witness:
  "process_message
      \<lparr>numerus_attr = None, source_text = ''%1 %2'',
        translation_elem = \<lparr>node_text = Some ''x$1,%2'', attrib = Map.empty, numerusforms = []\<rparr>,
        locations = []\<rparr>
      \<lparr>source_f = ({}, []), tf = 0, lr = 0, have_errors = False\<rparr>
    = Inr (\<lparr>numerus_attr = None, source_text = ''%1 %2'',
             translation_elem =
               \<lparr>node_text = Some ''x %1, %2'', attrib = Map.empty, numerusforms = []\<rparr>,
             locations = []\<rparr>,
           False,
           \<lparr>source_f = ({CHR ''1'', CHR ''2''}, []), tf = 1, lr = 0, have_errors = False\<rparr>)
   \<and> find_format_specifiers ''x %1, %2'' = Inr ''12''"
proof -
  let ?node = "\<lparr>node_text = Some ''x$1,%2'', attrib = Map.empty, numerusforms = []\<rparr>"
  let ?m = "\<lparr>numerus_attr = None, source_text = ''%1 %2'', translation_elem = ?node,
      locations = []\<rparr>"
  let ?r = "\<lparr>source_f = ({}, []), tf = 0, lr = 0, have_errors = False\<rparr>"
  have 1: "numerus_attr ?m \<noteq> Some ''yes''"
    and 2: "node_text (translation_elem ?m) = Some ''x$1,%2''"
    and 3: "''x$1,%2'' \<noteq> []"
    by simp_all
  have src: "find_format_specifiers ''%1 %2'' = Inr ''12''"
    and tr: "find_format_specifiers ''x$1,%2'' = Inr ''2''"
    by (simp_all add: find_eval)
  have 4: "find_format_specifiers (source_text ?m) = Inr ''12''" using src by simp
  have p: "split_format_specifiers ''12'' = ({CHR ''1'', CHR ''2''}, [])"
    "split_format_specifiers ''2'' = ({CHR ''2''}, [])"
    by (simp_all add: split_format_specifiers_def numeric_specifiers_def)
  have 5: "validate (source_text ?m) ''x$1,%2'' False
      = Inr (False, [mismatch_finding ''%1 %2'' ''x$1,%2''], split_format_specifiers ''12'')"
    by (simp add: validate_def check_format_specifiers_source_ok [OF src] tr p)
  have 6: "fix_string ''x$1,%2'' = ''x%1,%2''" by (simp add: fix_eval)
  have 7: "find_format_specifiers ''x%1,%2'' = Inr ''12''" by (simp add: find_eval)
  have g: "space_guard ''x%1,%2'' = Inr True" by (simp add: space_guard_def str_find_def)
  then have c: "hd ''x%1,%2'' \<noteq> CHR ''%''
     \<and> (\<forall>i. Suc i < length ''x%1,%2'' \<and> ''x%1,%2'' ! Suc i = CHR ''%'' \<longrightarrow>
           ''x%1,%2'' ! i \<notin> {CHR '' '', CHR ''('', CHR 0x27, CHR 0x22})"
    by (subst (asm) space_guard_iff) simp_all
  have d: "str_find ''x%1,%2'' ''%%'' 0 = - 1" by (simp add: str_find_def)
  from first_pass_accepts [OF 1 2 3 4 5 6 7 refl, of ?r] obtain stored where
    f: "process_message ?m ?r =
        Inr (?m\<lparr>translation_elem := (translation_elem ?m)\<lparr>node_text := Some stored\<rparr>,
               locations := []\<rparr>,
             unfinished (translation_elem ?m),
             ?r\<lparr>source_f := split_format_specifiers ''12'', tf := tf ?r + 1\<rparr>)"
    and s: "stored = concat (map (\<lambda>c. if c = CHR ''%'' then '' %'' else [c]) ''x%1,%2'')"
    and q: "find_format_specifiers stored = Inr ''12''"
    using c d by auto
  from s have "stored = ''x %1, %2''" by simp
  with f q show ?thesis by (simp add: p unfinished_def)
qed

text \<open>
  The amended claim says nothing of plural-aware messages. For those, lines 193-201 work
  on the text of the translation element, not on the invalid numerusform: for the source
  \<open>"Show items"\<close> with the forms \<open>"%n Ding"\<close> and \<open>"%n Dinge"\<close> and white space as the
  element's text, two fixes are counted and both forms stay as they were.
\<close>

lemma numerus_forms_not_repaired:
  "process_message
      \<lparr>numerus_attr = Some ''yes'', source_text = ''Show items'',
        translation_elem =
          \<lparr>node_text = Some [CHR 0x0A, CHR '' ''], attrib = Map.empty,
            numerusforms = [Some ''%n Ding'', Some ''%n Dinge'']\<rparr>,
        locations = []\<rparr>
      \<lparr>source_f = ({}, []), tf = 0, lr = 0, have_errors = False\<rparr>
    = Inr (\<lparr>numerus_attr = Some ''yes'', source_text = ''Show items'',
             translation_elem =
               \<lparr>node_text = Some [CHR 0x0A, CHR '' ''], attrib = Map.empty,
                 numerusforms = [Some ''%n Ding'', Some ''%n Dinge'']\<rparr>,
             locations = []\<rparr>,
           False,
           \<lparr>source_f = ({}, []), tf = 2, lr = 0, have_errors = False\<rparr>)"
proof -
  have src: "find_format_specifiers ''Show items'' = Inr []"
    and t1: "find_format_specifiers ''%n Ding'' = Inr ''n''"
    and t2: "find_format_specifiers ''%n Dinge'' = Inr ''n''"
    and ws: "find_format_specifiers [CHR 0x0A, CHR '' ''] = Inr []"
    by (simp_all add: find_eval)
  have p: "split_format_specifiers [] = ({}, [])" "split_format_specifiers ''n'' = ({}, ''n'')"
    by (simp_all add: split_format_specifiers_def numeric_specifiers_def)
  have v1: "validate ''Show items'' ''%n Ding'' True
      = Inr (False, [mismatch_finding ''Show items'' ''%n Ding''], ({}, []))"
    and v2: "validate ''Show items'' ''%n Dinge'' True
      = Inr (False, [mismatch_finding ''Show items'' ''%n Dinge''], ({}, []))"
    by (simp_all add: validate_def check_format_specifiers_source_ok [OF src] t1 t2 p)
  have f: "fix_string [CHR 0x0A, CHR '' ''] = [CHR 0x0A, CHR '' '']" by (simp add: fix_eval)
  have g: "space_guard [CHR 0x0A, CHR '' ''] = Inr True"
    by (simp add: space_guard_def str_find_def)
  have rp: "py_replace [CHR 0x0A, CHR '' ''] ''%'' '' %'' = [CHR 0x0A, CHR '' '']"
    by (simp add: py_replace_def)
  have fx: "fix_translation ''Show items''
        \<lparr>node_text = Some [CHR 0x0A, CHR '' ''], attrib = Map.empty,
          numerusforms = [Some ''%n Ding'', Some ''%n Dinge'']\<rparr>
        \<lparr>source_f = ({}, []), tf = k, lr = 0, have_errors = False\<rparr>
      = Inr (\<lparr>node_text = Some [CHR 0x0A, CHR '' ''], attrib = Map.empty,
               numerusforms = [Some ''%n Ding'', Some ''%n Dinge'']\<rparr>,
             \<lparr>source_f = ({}, []), tf = k + 1, lr = 0, have_errors = False\<rparr>)" for k
    by (subst fix_translation_first_pass [OF _ f ws _ g]) (simp_all add: p rp)
  show ?thesis
    by (simp add: process_message_def process_translation_invalid [OF v1]
        process_translation_invalid [OF v2] fx unfinished_def)
qed

section \<open>The positional-vs-plural swap pass\<close>




text \<open>
  The amended claim says nothing of plural-aware messages. For those, lines 218-219 test
  the text of the translation element, not the invalid numerusform: for the source
  \<open>"%n items"\<close> with the form \<open>"%1 Ding"\<close> and white space as the element's text, the
  element is cleared and the swap is not tried.
\<close>

lemma numerus_swap_not_tried:
  "process_message
      \<lparr>numerus_attr = Some ''yes'', source_text = ''%n items'',
        translation_elem =
          \<lparr>node_text = Some [CHR 0x0A, CHR '' ''], attrib = Map.empty,
            numerusforms = [Some ''%1 Ding'']\<rparr>,
        locations = []\<rparr>
      \<lparr>source_f = ({}, []), tf = 0, lr = 0, have_errors = False\<rparr>
    = Inr (\<lparr>numerus_attr = Some ''yes'', source_text = ''%n items'',
             translation_elem =
               \<lparr>node_text = None, attrib = [''type'' \<mapsto> ''unfinished''], numerusforms = []\<rparr>,
             locations = []\<rparr>,
           True,
           \<lparr>source_f = ({}, ''n''), tf = 0, lr = 0, have_errors = True\<rparr>)"
proof -
  have src: "find_format_specifiers ''%n items'' = Inr ''n''"
    and t1: "find_format_specifiers ''%1 Ding'' = Inr ''1''"
    and ws: "find_format_specifiers [CHR 0x0A, CHR '' ''] = Inr []"
    by (simp_all add: find_eval)
  have p: "split_format_specifiers [] = ({}, [])" "split_format_specifiers ''n'' = ({}, ''n'')"
    "split_format_specifiers ''1'' = ({CHR ''1''}, [])"
    by (simp_all add: split_format_specifiers_def numeric_specifiers_def)
  have v1: "validate ''%n items'' ''%1 Ding'' True
      = Inr (False, [mismatch_finding ''%n items'' ''%1 Ding''], ({}, ''n''))"
    by (simp add: validate_def check_format_specifiers_source_ok [OF src] t1 p)
  have f: "fix_string [CHR 0x0A, CHR '' ''] = [CHR 0x0A, CHR '' '']" by (simp add: fix_eval)
  have s: "str_find [CHR 0x0A, CHR '' ''] ''%'' 0 = - 1"
    "str_find [CHR 0x0A, CHR '' ''] ''%1'' 0 = - 1"
    by (simp_all add: str_find_def)
  show ?thesis
    by (simp add: process_message_def process_translation_invalid [OF v1]
        fix_translation_def f ws p s clear_translation_def unfinished_def)
qed

section \<open>The content filter\<close>

text \<open>
  Claim C5 (a translation in which the address pattern matches is flagged and treated as
  invalid, even when its profile equals the source profile), at the source \<open>"send now"\<close>
  with the translation \<open>"send to 1A1zP1eP5QGefi2DMPTfTL5SLmv7DivfNa now"\<close> of a message
  that is not plural-aware. The filter records its finding, which announces that the
  translation will be removed, and \<open>valid\<close> is \<open>False\<close>. The repair of lines 193-201
  then re-checks the specifier profile only: it equals the source profile, so the text
  is stored as it is and counted as a fixed translation. The element is not cleared,
  the run is not flagged, and the message stays in the document with the address.
\<close>

theorem address_translation_kept:
  "validate ''send now'' ''send to 1A1zP1eP5QGefi2DMPTfTL5SLmv7DivfNa now'' False
     = Inr (False, [address_finding ''send to 1A1zP1eP5QGefi2DMPTfTL5SLmv7DivfNa now''], ({}, []))
   \<and> process_message
      \<lparr>numerus_attr = None, source_text = ''send now'',
        translation_elem =
          \<lparr>node_text = Some ''send to 1A1zP1eP5QGefi2DMPTfTL5SLmv7DivfNa now'',
            attrib = Map.empty, numerusforms = []\<rparr>,
        locations = []\<rparr>
      \<lparr>source_f = ({}, []), tf = 0, lr = 0, have_errors = False\<rparr>
    = Inr (\<lparr>numerus_attr = None, source_text = ''send now'',
             translation_elem =
               \<lparr>node_text = Some ''send to 1A1zP1eP5QGefi2DMPTfTL5SLmv7DivfNa now'',
                 attrib = Map.empty, numerusforms = []\<rparr>,
             locations = []\<rparr>,
           False,
           \<lparr>source_f = ({}, []), tf = 1, lr = 0, have_errors = False\<rparr>)"
proof -
  let ?tr = "''send to 1A1zP1eP5QGefi2DMPTfTL5SLmv7DivfNa now''"
  have src: "find_format_specifiers ''send now'' = Inr []"
    and tr: "find_format_specifiers ?tr = Inr []"
    by (simp_all add: find_no_percent)
  have p: "split_format_specifiers [] = ({}, [])"
    by (simp add: split_format_specifiers_def)
  have a: "contains_bitcoin_addr (Some ?tr) [] = (True, [address_finding ?tr])"
    by (simp add: contains_bitcoin_addr_def address_match_def alnum_def)
  have v: "validate ''send now'' ?tr False = Inr (False, [address_finding ?tr], ({}, []))"
    by (simp add: validate_def check_format_specifiers_source_ok [OF src] tr p a)
  have f: "fix_string ?tr = ?tr" by (simp add: fix_eval)
  have g: "space_guard ?tr = Inr True" by (simp add: space_guard_def str_find_def)
  have rp: "py_replace ?tr ''%'' '' %'' = ?tr" by (simp add: py_replace_def)
  have fx: "fix_translation ''send now''
        \<lparr>node_text = Some ?tr, attrib = Map.empty, numerusforms = []\<rparr>
        \<lparr>source_f = ({}, []), tf = 0, lr = 0, have_errors = False\<rparr>
      = Inr (\<lparr>node_text = Some ?tr, attrib = Map.empty, numerusforms = []\<rparr>,
             \<lparr>source_f = ({}, []), tf = 1, lr = 0, have_errors = False\<rparr>)"
    by (subst fix_translation_first_pass [OF _ f tr _ g]) (simp_all add: p rp)
  have pm: "process_message
      \<lparr>numerus_attr = None, source_text = ''send now'',
        translation_elem = \<lparr>node_text = Some ?tr, attrib = Map.empty, numerusforms = []\<rparr>,
        locations = []\<rparr>
      \<lparr>source_f = ({}, []), tf = 0, lr = 0, have_errors = False\<rparr>
    = Inr (\<lparr>numerus_attr = None, source_text = ''send now'',
             translation_elem = \<lparr>node_text = Some ?tr, attrib = Map.empty, numerusforms = []\<rparr>,
             locations = []\<rparr>,
           False,
           \<lparr>source_f = ({}, []), tf = 1, lr = 0, have_errors = False\<rparr>)"
    by (simp add: process_message_def process_translation_invalid [OF v] fx unfinished_def)
  from v pm show ?thesis by simp
qed

text \<open>
  Up to line 186 the code does what the claim says: for a source whose specifiers can
  be extracted, every translation in which the pattern matches is found invalid with at
  least one finding, the filter's own when the specifier check accepts the translation,
  and is handed to the repair.
\<close>

lemma address_found_invalid:
  assumes "address_search translation"
    and "find_format_specifiers source = Inr ss"
  shows "(\<exists>errors. validate source translation numerus
            = Inr (False, errors, split_format_specifiers ss) \<and> errors \<noteq> [])
    \<and> (\<forall>ts. find_format_specifiers translation = Inr ts
            \<and> split_format_specifiers ts = split_format_specifiers ss \<longrightarrow>
          validate source translation numerus
            = Inr (False, [address_finding translation], split_format_specifiers ss))
    \<and> process_translation source numerus (Some translation) translation_node r
        = fix_translation source translation_node (r\<lparr>source_f := split_format_specifiers ss\<rparr>)"
proof -
  have v: "\<exists>errors. validate source translation numerus
            = Inr (False, errors, split_format_specifiers ss) \<and> errors \<noteq> []"
    using assms(1)
    by (simp add: validate_def check_format_specifiers_source_ok [OF assms(2)]
        contains_bitcoin_addr_def split: sum.split)
  have e: "validate source translation numerus
            = Inr (False, [address_finding translation], split_format_specifiers ss)"
    if "find_format_specifiers translation = Inr ts"
      and "split_format_specifiers ts = split_format_specifiers ss" for ts
    using assms(1) that
    by (simp add: validate_def check_format_specifiers_source_ok [OF assms(2)]
        contains_bitcoin_addr_def)
  from v have "process_translation source numerus (Some translation) translation_node r
        = fix_translation source translation_node (r\<lparr>source_f := split_format_specifiers ss\<rparr>)"
    by (auto simp: process_translation_def)
  with v e show ?thesis by blast
qed

section \<open>The plural exemption\<close>

text \<open>
  Claim C6. For a plural-aware (numerus) message whose source profile is exactly
  \<open>({}, ['n'])\<close> and whose translation contains no \<open>%\<close> character, the translation's
  profile is \<open>({}, [])\<close> and the consistency check returns \<open>True\<close> with the list of
  findings unchanged: no mismatch is recorded.
\<close>

theorem numerus_without_placeholder_accepted:
  assumes "find_format_specifiers source = Inr ss"
    and "split_format_specifiers ss = ({}, ''n'')"
    and "CHR ''%'' \<notin> set translation"
  shows "find_format_specifiers translation = Inr []
    \<and> split_format_specifiers [] = ({}, [])
    \<and> check_format_specifiers source translation errors True = Inr (True, errors, ({}, ''n''))"
  using assms
  by (simp add: check_format_specifiers_source_ok find_no_percent str_find_absent
      split_format_specifiers_def)

theorem numerus_without_placeholder_accepted_witness:
  "check_format_specifiers ''%n items'' ''items'' [] True = Inr (True, [], ({}, ''n''))"
proof -
  have 1: "find_format_specifiers ''%n items'' = Inr ''n''"
    by (simp add: find_eval)
  have 2: "split_format_specifiers ''n'' = ({}, ''n'')"
    by (simp add: split_format_specifiers_def numeric_specifiers_def)
  have 3: "CHR ''%'' \<notin> set ''items''" by simp
  from numerus_without_placeholder_accepted [OF 1 2 3] show ?thesis by simp
qed

section \<open>The repair table on the example of the specification\<close>

text \<open>
  Claim C7. The repair table turns \<open>"% 1 and 2% and % s"\<close> into \<open>"%1 and %2 and %s"\<close>,
  whose tokens are those of the source \<open>"%1 %2 %s"\<close>, so that the check of this source
  against the repaired string finds the profiles equal (both are \<open>({1, 2}, [])\<close>: the
  digits force the other sequence empty). In particular the table turns \<open>"% 1"\<close> into
  \<open>"%1"\<close> and \<open>"2%"\<close> into \<open>"%2"\<close>.
\<close>

theorem fix_string_example:
  "fix_string ''% 1'' = ''%1'' \<and> fix_string ''2%'' = ''%2''
   \<and> fix_string ''% 1 and 2% and % s'' = ''%1 and %2 and %s''
   \<and> find_format_specifiers (fix_string ''% 1 and 2% and % s'') = Inr ''12s''
   \<and> find_format_specifiers ''%1 %2 %s'' = Inr ''12s''
   \<and> split_format_specifiers ''12s'' = ({CHR ''1'', CHR ''2''}, [])
   \<and> check_format_specifiers ''%1 %2 %s'' (fix_string ''% 1 and 2% and % s'') [] False
       = Inr (True, [], ({CHR ''1'', CHR ''2''}, []))"
proof -
  have f1: "fix_string ''% 1'' = ''%1''" and f2: "fix_string ''2%'' = ''%2''"
    and f3: "fix_string ''% 1 and 2% and % s'' = ''%1 and %2 and %s''"
    by (simp_all add: fix_string_def fix_table_def py_replace_def)
  have s1: "find_format_specifiers ''%1 and %2 and %s'' = Inr ''12s''"
    and s2: "find_format_specifiers ''%1 %2 %s'' = Inr ''12s''"
    by (simp_all add: find_eval)
  have p: "split_format_specifiers ''12s'' = ({CHR ''1'', CHR ''2''}, [])"
    by (simp add: split_format_specifiers_def numeric_specifiers_def)
  show ?thesis
    by (simp add: f1 f2 f3 s1 s2 p check_format_specifiers_source_ok [OF s2])
qed

section \<open>Irreparable translations\<close>

text \<open>
  Claim C8 (a translation no repair pass fixes ends cleared and marked unfinished, the
  run is flagged and goes on), at the source \<open>"Done"\<close> with the translation \<open>"100%"\<close>. The
  check catches the \<open>IndexError\<close> of extraction and finds the translation invalid; the
  table leaves \<open>"100%"\<close> as it is; the extraction of line 195 is outside any \<^verbatim>\<open>try\<close>
  and raises \<open>IndexError\<close> again: the element is not cleared and the processing of the
  document ends with the exception. (Whenever the repair does return, \<open>repair_outcome\<close>
  applies: a translation that is not counted as fixed is cleared, marked unfinished, and
  the run is flagged.)
\<close>

theorem irreparable_trailing_percent:
  "validate ''Done'' ''100%'' False = Inr (False, [parse_error_finding ''Done'' ''100%''], ({}, []))
   \<and> fix_string ''100%'' = ''100%''
   \<and> find_format_specifiers ''100%'' = Inl IndexError
   \<and> process_translation ''Done'' False (Some ''100%'')
        \<lparr>node_text = Some ''100%'', attrib = Map.empty, numerusforms = []\<rparr>
        \<lparr>source_f = ({}, []), tf = 0, lr = 0, have_errors = False\<rparr>
      = Inl IndexError
   \<and> postprocess_document
        [[\<lparr>numerus_attr = None, source_text = ''Done'',
            translation_elem = \<lparr>node_text = Some ''100%'', attrib = Map.empty, numerusforms = []\<rparr>,
            locations = []\<rparr>]]
        \<lparr>source_f = ({}, []), tf = 0, lr = 0, have_errors = False\<rparr>
      = Inl IndexError"
proof -
  have src: "find_format_specifiers ''Done'' = Inr []"
    and tr: "find_format_specifiers ''100%'' = Inl IndexError"
    by (simp_all add: find_eval)
  have p: "split_format_specifiers [] = ({}, [])"
    by (simp add: split_format_specifiers_def)
  have v: "validate ''Done'' ''100%'' False
      = Inr (False, [parse_error_finding ''Done'' ''100%''], ({}, []))"
    by (simp add: validate_def check_format_specifiers_source_ok [OF src] tr p)
  have f: "fix_string ''100%'' = ''100%''" by (simp add: fix_eval)
  have a: "process_translation ''Done'' False (Some ''100%'')
        \<lparr>node_text = Some ''100%'', attrib = Map.empty, numerusforms = []\<rparr>
        \<lparr>source_f = ({}, []), tf = 0, lr = 0, have_errors = False\<rparr>
      = Inl IndexError"
    unfolding process_translation_invalid [OF v]
    by (simp add: fix_translation_def f tr)
  have b: "postprocess_document
        [[\<lparr>numerus_attr = None, source_text = ''Done'',
            translation_elem = \<lparr>node_text = Some ''100%'', attrib = Map.empty, numerusforms = []\<rparr>,
            locations = []\<rparr>]]
        \<lparr>source_f = ({}, []), tf = 0, lr = 0, have_errors = False\<rparr>
      = Inl IndexError"
    by (simp add: postprocess_document_def process_message_def a)
  from v f tr a b show ?thesis by simp
qed

section \<open>Pruning and the minimum number of messages\<close>

text \<open>
  Claim C9. When the processing of a document's messages completes, the messages left in
  the document are exactly the processed messages whose translation element is not
  marked unfinished (in their order, context by context); with 9 or fewer of them the
  document is left out (and the count of removed languages goes up by one), with 10 or
  more the pruned document is written.
\<close>

theorem document_pruning:
  assumes "processed_contexts root r = Inr (processed, r')"
    and "kept = map (filter finished) processed"
  shows "process_contexts root r = Inr (kept, r')
    \<and> (\<forall>c \<in> set kept. \<forall>m \<in> set c. \<not> unfinished (translation_elem m))
    \<and> concat kept = filter (\<lambda>m. \<not> unfinished (translation_elem m)) (concat processed)
    \<and> (length (concat kept) \<le> 9 \<longrightarrow>
          postprocess_document root r = Inr (None, r'\<lparr>lr := lr r' + 1\<rparr>))
    \<and> (10 \<le> length (concat kept) \<longrightarrow> postprocess_document root r = Inr (Some kept, r'))"
proof -
  have 1: "process_contexts root r = Inr (kept, r')"
    by (simp add: process_contexts_filter assms)
  have 2: "\<forall>c \<in> set kept. \<forall>m \<in> set c. \<not> unfinished (translation_elem m)"
    by (auto simp: assms(2) finished_def)
  have 3: "concat kept = filter (\<lambda>m. \<not> unfinished (translation_elem m)) (concat processed)"
    unfolding assms(2) by (induction processed) (simp_all add: finished_def [abs_def])
  have 4: "postprocess_document root r = Inr (None, r'\<lparr>lr := lr r' + 1\<rparr>)"
    if "length (concat kept) \<le> 9"
    using that by (simp add: postprocess_document_def 1 MIN_NUM_MESSAGES_def)
  have 5: "postprocess_document root r = Inr (Some kept, r')" if "10 \<le> length (concat kept)"
    using that by (simp add: postprocess_document_def 1 MIN_NUM_MESSAGES_def)
  from 1 2 3 4 5 show ?thesis by blast
qed

theorem document_pruning_witness:
  "(let m = \<lparr>numerus_attr = None, source_text = ''Yes'',
              translation_elem = \<lparr>node_text = Some ''Ja'', attrib = Map.empty, numerusforms = []\<rparr>,
              locations = []\<rparr>;
        u = \<lparr>numerus_attr = None, source_text = ''No'',
              translation_elem =
                \<lparr>node_text = None, attrib = [''type'' \<mapsto> ''unfinished''], numerusforms = []\<rparr>,
              locations = []\<rparr>;
        r = \<lparr>source_f = ({}, []), tf = 0, lr = 0, have_errors = False\<rparr>
    in postprocess_document [u # replicate 9 m] r = Inr (None, r\<lparr>lr := 1\<rparr>)
       \<and> postprocess_document [u # replicate 10 m] r = Inr (Some [replicate 10 m], r))"
proof -
  define m where "m = \<lparr>numerus_attr = None, source_text = ''Yes'',
      translation_elem = \<lparr>node_text = Some ''Ja'', attrib = Map.empty, numerusforms = []\<rparr>,
      locations = []\<rparr>"
  define u where "u = \<lparr>numerus_attr = None, source_text = ''No'',
      translation_elem =
        \<lparr>node_text = None, attrib = [''type'' \<mapsto> ''unfinished''], numerusforms = []\<rparr>,
      locations = []\<rparr>"
  define r where "r = \<lparr>source_f = ({}, []), tf = 0, lr = 0, have_errors = False\<rparr>"
  have yes: "find_format_specifiers ''Yes'' = Inr []" and ja: "find_format_specifiers ''Ja'' = Inr []"
    by (simp_all add: find_no_percent)
  have addr: "contains_bitcoin_addr (Some ''Ja'') [] = (False, [])"
    by (simp add: contains_bitcoin_addr_def address_match_def alnum_def)
  have v: "validate ''Yes'' ''Ja'' False = Inr (True, [], ({}, []))"
    by (simp add: validate_def check_format_specifiers_source_ok [OF yes] ja addr
        split_format_specifiers_def)
  have pm: "process_message m r = Inr (m, False, r)"
    by (simp add: process_message_def m_def r_def process_translation_def v unfinished_def)
  have pu: "process_message u r = Inr (u, True, r)"
    by (simp add: process_message_def u_def r_def process_translation_def unfinished_def)
  have pms: "processed_messages (replicate n m) r = Inr (replicate n m, r)" for n
    by (induction n) (simp_all add: pm)
  have pc: "processed_contexts [u # replicate n m] r = Inr ([u # replicate n m], r)" for n
    by (simp add: pu pms)
  have fm: "finished m" and fu: "\<not> finished u"
    by (simp_all add: finished_def unfinished_def m_def u_def)
  have k: "[replicate n m] = map (filter finished) [u # replicate n m]" for n
    by (simp add: fm fu)
  from document_pruning [OF pc [of 9] k [of 9]]
  have a: "postprocess_document [u # replicate 9 m] r = Inr (None, r\<lparr>lr := 1\<rparr>)"
    by (simp add: r_def)
  from document_pruning [OF pc [of 10] k [of 10]]
  have b: "postprocess_document [u # replicate 10 m] r = Inr (Some [replicate 10 m], r)"
    by simp
  from a b show ?thesis unfolding Let_def m_def u_def r_def by simp
qed

section \<open>The assertion on the source profile\<close>

text \<open>
  Claim C10. For every list of tokens, the pair classification returns never has both a
  non-empty numeric set and a non-empty other sequence; so for every source string (and
  every translation) the \<^verbatim>\<open>assert\<close> of the consistency check passes when it is reached:
  the check never ends with an \<open>AssertionError\<close>.
\<close>

theorem source_assertion_never_fails:
  "\<not> (fst (split_format_specifiers specifiers) \<noteq> {}
        \<and> snd (split_format_specifiers specifiers) \<noteq> [])
   \<and> check_format_specifiers source translation errors numerus \<noteq> Inl AssertionError"
proof
  show "\<not> (fst (split_format_specifiers specifiers) \<noteq> {}
      \<and> snd (split_format_specifiers specifiers) \<noteq> [])"
    by (rule assertion_passes)
  show "check_format_specifiers source translation errors numerus \<noteq> Inl AssertionError"
  proof (cases "find_format_specifiers source")
    case (Inl e)
    then show ?thesis by (simp add: check_format_specifiers_source_error)
  next
    case (Inr ss)
    then show ?thesis
      by (simp add: check_format_specifiers_source_ok split: sum.split)
  qed
qed

end
